theory Spec2Isabelle
  imports Complex_Main "HOL-Library.Word"
begin

section \<open>The Kaleidoscope lexer (Lexer.cpp) and the prototype node (AST.h)\<close>

subsection \<open>Characters, the C library and the input stream\<close>

text \<open>
  \<open>getchar\<close> yields the next byte of standard input as an \<open>int\<close> in \<open>0..255\<close>, or
  \<open>EOF\<close> once the stream is exhausted. Standard input is the list of bytes not yet read.
\<close>

abbreviation ord :: "char \<Rightarrow> int" where
  "ord c \<equiv> of_char c"

text \<open>The macro \<open>EOF\<close> is a negative \<open>int\<close>, \<open>-1\<close> in the usual C libraries.\<close>

definition EOF :: int where
  "EOF = - 1"

text \<open>The classification functions of \<open><cctype>\<close> in the "C" locale, the locale a
  program starts in. All of them are false at \<open>EOF\<close>.\<close>

definition isspace :: "int \<Rightarrow> bool" where
  "isspace c \<longleftrightarrow> c = 32 \<or> (9 \<le> c \<and> c \<le> 13)"

definition isdigit :: "int \<Rightarrow> bool" where
  "isdigit c \<longleftrightarrow> 48 \<le> c \<and> c \<le> 57"

definition isalpha :: "int \<Rightarrow> bool" where
  "isalpha c \<longleftrightarrow> (65 \<le> c \<and> c \<le> 90) \<or> (97 \<le> c \<and> c \<le> 122)"

definition isalnum :: "int \<Rightarrow> bool" where
  "isalnum c \<longleftrightarrow> isalpha c \<or> isdigit c"

definition getchar :: "string \<Rightarrow> int \<times> string" where
  "getchar inp = (case inp of [] \<Rightarrow> (EOF, []) | c # cs \<Rightarrow> (ord c, cs))"

text \<open>\<open>Lexer::advance\<close> (lines 111-126): what is left of it is the call of \<open>getchar\<close>.\<close>

definition advance :: "string \<Rightarrow> int \<times> string" where
  "advance inp = getchar inp"

subsection \<open>State\<close>

text \<open>
  The enumerators of the token enumeration, as \<open>gettok\<close> names them. Their integer values
  are declared in Lexer.h, which is not part of the sources at hand: \<open>gettok\<close> takes the
  valuation \<open>tok\<close> of the enumerators as a parameter.
\<close>

datatype Token =
    tok_eof | tok_def | tok_extern | tok_identifier | tok_number
  | tok_if | tok_then | tok_else | tok_for | tok_in
  | tok_unary | tok_binary | tok_var

text \<open>
  \<open>LastChar\<close> is a function-local \<open>static int\<close> of \<open>gettok\<close>: one value per process,
  like standard input itself. The two live in \<open>world\<close>.
  \<open>identifierStr_\<close> and \<open>numVal_\<close> are data members: one pair per \<open>Lexer\<close> object.
  The type \<open>'d\<close> stands for \<open>double\<close>.
\<close>

record world =
  LastChar :: int
  stdin :: string

record 'd Lexer =
  identifierStr :: string
  numVal :: 'd

text \<open>The static is initialised to a blank, once, before the first call.\<close>

definition world_init :: "string \<Rightarrow> world" where
  "world_init inp = \<lparr>LastChar = ord CHR '' '', stdin = inp\<rparr>"

text \<open>
  \<open>Lexer::Lexer\<close> (lines 16-18) has an empty body and no initialiser list: the string
  member is default-constructed, \<open>numVal_\<close> keeps whatever value \<open>d0\<close> the storage holds,
  and nothing outside the object is touched.
\<close>

definition Lexer_ctor :: "'d \<Rightarrow> world \<Rightarrow> world \<times> 'd Lexer" where
  "Lexer_ctor d0 w = (w, \<lparr>identifierStr = [], numVal = d0\<rparr>)"

definition getNum :: "'d Lexer \<Rightarrow> 'd" where
  "getNum L = numVal L"

definition getId :: "'d Lexer \<Rightarrow> string" where
  "getId L = identifierStr L"

subsection \<open>The loops of gettok\<close>

text \<open>Lines 26-28: \<open>while (isspace(LastChar)) LastChar = advance();\<close>\<close>

function ws_loop :: "int \<Rightarrow> string \<Rightarrow> int \<times> string" where
  "ws_loop c inp =
     (if isspace c then (case advance inp of (c', inp') \<Rightarrow> ws_loop c' inp') else (c, inp))"
  by pat_completeness auto
termination
  by (relation "measure (\<lambda>(c, inp). 2 * length inp + (if isspace c then 1 else 0))")
     (auto simp: advance_def getchar_def EOF_def isspace_def split: list.splits)

text \<open>Lines 35-38: \<open>while (isalnum((LastChar = getchar()))) identifierStr_ += LastChar;\<close>
  The result is the character that stopped the loop, the buffer and the rest of the input.\<close>

function ident_loop :: "string \<Rightarrow> string \<Rightarrow> int \<times> string \<times> string" where
  "ident_loop buf inp =
     (case getchar inp of (c, inp') \<Rightarrow>
        if isalnum c then ident_loop (buf @ [char_of c]) inp' else (c, buf, inp'))"
  by pat_completeness auto
termination
  by (relation "measure (\<lambda>(buf, inp). length inp)")
     (auto simp: getchar_def EOF_def isalnum_def isalpha_def isdigit_def split: list.splits)

text \<open>Lines 68-72:
  \<open>do { NumStr += LastChar; LastChar = getchar(); } while (isdigit(LastChar) || LastChar == '.');\<close>\<close>

function num_loop :: "string \<Rightarrow> int \<Rightarrow> string \<Rightarrow> int \<times> string \<times> string" where
  "num_loop NumStr c inp =
     (case getchar inp of (c', inp') \<Rightarrow>
        if isdigit c' \<or> c' = ord CHR ''.'' then num_loop (NumStr @ [char_of c]) c' inp'
        else (c', NumStr @ [char_of c], inp'))"
  by pat_completeness auto
termination
  by (relation "measure (\<lambda>(NumStr, c, inp). length inp)")
     (auto simp: getchar_def EOF_def isdigit_def split: list.splits)

text \<open>Lines 81-84:
  \<open>do { LastChar = getchar(); } while (LastChar != EOF && LastChar != '\n' && LastChar != '\r');\<close>\<close>

function comment_loop :: "string \<Rightarrow> int \<times> string" where
  "comment_loop inp =
     (case getchar inp of (c, inp') \<Rightarrow>
        if c \<noteq> EOF \<and> c \<noteq> 10 \<and> c \<noteq> 13 then comment_loop inp' else (c, inp'))"
  by pat_completeness auto
termination
  by (relation "measure length")
     (auto simp: getchar_def EOF_def split: list.splits)

subsection \<open>gettok\<close>

text \<open>Lines 40-61: the chain of comparisons of the buffer with the ten keywords.\<close>

definition keyword_or_identifier :: "string \<Rightarrow> Token" where
  "keyword_or_identifier s =
     (if s = ''def'' then tok_def
      else if s = ''extern'' then tok_extern
      else if s = ''if'' then tok_if
      else if s = ''then'' then tok_then
      else if s = ''else'' then tok_else
      else if s = ''for'' then tok_for
      else if s = ''in'' then tok_in
      else if s = ''unary'' then tok_unary
      else if s = ''binary'' then tok_binary
      else if s = ''var'' then tok_var
      else tok_identifier)"

text \<open>Lines 90-97: the end of the function, reached by every character that is neither
  alphabetic nor part of a number, and by a comment that runs into the end of input.\<close>

definition eof_or_char :: "(Token \<Rightarrow> int) \<Rightarrow> int \<Rightarrow> string \<Rightarrow> 'd Lexer \<Rightarrow> int \<times> world \<times> 'd Lexer" where
  "eof_or_char tok c inp L =
     (if c = EOF then (tok tok_eof, \<lparr>LastChar = c, stdin = inp\<rparr>, L)
      else (case advance inp of (c', inp') \<Rightarrow> (c, \<lparr>LastChar = c', stdin = inp'\<rparr>, L)))"

text \<open>
  \<open>Lexer::gettok\<close> (lines 20-99). \<open>strtod\<close> is the C library function, a parameter;
  \<open>tok\<close> gives the enumerators their values. The result is the returned \<open>int\<close>, the
  process-wide state and the object.
\<close>

function gettok :: "(string \<Rightarrow> 'd) \<Rightarrow> (Token \<Rightarrow> int) \<Rightarrow> world \<Rightarrow> 'd Lexer \<Rightarrow> int \<times> world \<times> 'd Lexer" where
  "gettok strtod tok w L =
     (case ws_loop (LastChar w) (stdin w) of (c0, in0) \<Rightarrow>
        if isalpha c0 then
          (case ident_loop [char_of c0] in0 of (c1, ident, in1) \<Rightarrow>
             (tok (keyword_or_identifier ident), \<lparr>LastChar = c1, stdin = in1\<rparr>,
              L\<lparr>identifierStr := ident\<rparr>))
        else if isdigit c0 \<or> c0 = ord CHR ''.'' then
          (case num_loop [] c0 in0 of (c1, NumStr, in1) \<Rightarrow>
             (tok tok_number, \<lparr>LastChar = c1, stdin = in1\<rparr>, L\<lparr>numVal := strtod NumStr\<rparr>))
        else if c0 = ord CHR ''#'' then
          (case comment_loop in0 of (c1, in1) \<Rightarrow>
             if c1 \<noteq> EOF then gettok strtod tok \<lparr>LastChar = c1, stdin = in1\<rparr> L
             else eof_or_char tok c1 in1 L)
        else eof_or_char tok c0 in0 L)"
  by pat_completeness auto

text \<open>What a caller sees that calls \<open>gettok\<close> \<open>n\<close> times on one object: the returned
  kinds, each with the object as the call left it.\<close>

fun gettok_run :: "(string \<Rightarrow> 'd) \<Rightarrow> (Token \<Rightarrow> int) \<Rightarrow> nat \<Rightarrow> world \<Rightarrow> 'd Lexer \<Rightarrow> (int \<times> 'd Lexer) list" where
  "gettok_run strtod tok 0 w L = []"
| "gettok_run strtod tok (Suc n) w L =
     (case gettok strtod tok w L of (t, w', L') \<Rightarrow> (t, L') # gettok_run strtod tok n w' L')"

text \<open>\<open>gettok\<close> with a bound on the number of its nested activations: \<open>None\<close> when a
  further recursive call would exceed the bound.\<close>

fun gettok_fuel :: "nat \<Rightarrow> (string \<Rightarrow> 'd) \<Rightarrow> (Token \<Rightarrow> int) \<Rightarrow> world \<Rightarrow> 'd Lexer \<Rightarrow> (int \<times> world \<times> 'd Lexer) option" where
  "gettok_fuel 0 strtod tok w L = None"
| "gettok_fuel (Suc n) strtod tok w L =
     (case ws_loop (LastChar w) (stdin w) of (c0, in0) \<Rightarrow>
        if isalpha c0 then
          (case ident_loop [char_of c0] in0 of (c1, ident, in1) \<Rightarrow>
             Some (tok (keyword_or_identifier ident), \<lparr>LastChar = c1, stdin = in1\<rparr>,
               L\<lparr>identifierStr := ident\<rparr>))
        else if isdigit c0 \<or> c0 = ord CHR ''.'' then
          (case num_loop [] c0 in0 of (c1, NumStr, in1) \<Rightarrow>
             Some (tok tok_number, \<lparr>LastChar = c1, stdin = in1\<rparr>, L\<lparr>numVal := strtod NumStr\<rparr>))
        else if c0 = ord CHR ''#'' then
          (case comment_loop in0 of (c1, in1) \<Rightarrow>
             if c1 \<noteq> EOF then gettok_fuel n strtod tok \<lparr>LastChar = c1, stdin = in1\<rparr> L
             else Some (eof_or_char tok c1 in1 L))
        else Some (eof_or_char tok c0 in0 L))"

subsection \<open>Instances of the two parameters\<close>

text \<open>
  The theorems below hold for every \<open>tok\<close> and every \<open>strtod\<close>. To run the model on
  concrete inputs, \<open>tutorial_tok\<close> numbers the enumerators as the LLVM Kaleidoscope
  tutorial does, from \<open>-1\<close> downwards, and \<open>strtod_decimal\<close> gives the exact decimal value of the
  longest prefix \<open>digits [. digits]\<close> that holds a digit (zero if there is none), which is
  what \<open>strtod\<close> converts of a string over \<open>[0-9.]\<close>, before rounding to a double.
\<close>

fun tutorial_tok :: "Token \<Rightarrow> int" where
  "tutorial_tok tok_eof = - 1"
| "tutorial_tok tok_def = - 2"
| "tutorial_tok tok_extern = - 3"
| "tutorial_tok tok_identifier = - 4"
| "tutorial_tok tok_number = - 5"
| "tutorial_tok tok_if = - 6"
| "tutorial_tok tok_then = - 7"
| "tutorial_tok tok_else = - 8"
| "tutorial_tok tok_for = - 9"
| "tutorial_tok tok_in = - 10"
| "tutorial_tok tok_binary = - 11"
| "tutorial_tok tok_unary = - 12"
| "tutorial_tok tok_var = - 13"

definition digits_value :: "string \<Rightarrow> nat" where
  "digits_value ds = foldl (\<lambda>n d. 10 * n + (of_char d - 48)) 0 ds"

definition strtod_decimal :: "string \<Rightarrow> rat" where
  "strtod_decimal s =
     (let ip = takeWhile (\<lambda>c. isdigit (ord c)) s;
          r = dropWhile (\<lambda>c. isdigit (ord c)) s;
          fp = (case r of [] \<Rightarrow> []
                | c # r' \<Rightarrow> if c = CHR ''.'' then takeWhile (\<lambda>c. isdigit (ord c)) r' else [])
      in if ip = [] \<and> fp = [] then 0
         else of_nat (digits_value ip) + of_nat (digits_value fp) / 10 ^ length fp)"

subsection \<open>The keyword set of the specification\<close>

text \<open>The fixed keyword set \<open>{def, extern, if, then, else, for, in, unary, binary, var}\<close>,
  each keyword with the kind named after it.\<close>

definition keyword_kinds :: "(string \<times> Token) list" where
  "keyword_kinds =
     [(''def'', tok_def), (''extern'', tok_extern), (''if'', tok_if), (''then'', tok_then),
      (''else'', tok_else), (''for'', tok_for), (''in'', tok_in), (''unary'', tok_unary),
      (''binary'', tok_binary), (''var'', tok_var)]"

definition keyword_strings :: "string list" where
  "keyword_strings = map fst keyword_kinds"

subsection \<open>PrototypeAST (AST.h, lines 92-116)\<close>

text \<open>The data members as AST.h declares them; \<open>unsigned\<close> is a 32-bit word.\<close>

record PrototypeAST =
  name :: string
  args :: "string list"
  is_operator :: bool
  precedence :: "32 word"

text \<open>Modelled from the spec: the constructor and the member functions are declared in
  AST.h and defined in AST.cpp, which is not part of the sources at hand. The constructor
  stores its four arguments (the declaration defaults the last two to \<open>false\<close> and \<open>0\<close>).\<close>

definition PrototypeAST_ctor :: "string \<Rightarrow> string list \<Rightarrow> bool \<Rightarrow> 32 word \<Rightarrow> PrototypeAST" where
  "PrototypeAST_ctor n a is_op prec =
     \<lparr>name = n, args = a, is_operator = is_op, precedence = prec\<rparr>"

text \<open>Modelled from the spec: "Precedence is meaningful only when the operator flag is set;
  arity 1 = unary, 2 = binary", the arity being the parameter count.\<close>

definition isUnary :: "PrototypeAST \<Rightarrow> bool" where
  "isUnary p \<longleftrightarrow> is_operator p \<and> length (args p) = 1"

definition isBinary :: "PrototypeAST \<Rightarrow> bool" where
  "isBinary p \<longleftrightarrow> is_operator p \<and> length (args p) = 2"

text \<open>Modelled from the spec: the prototype "reports binary precedence 10 to any consumer
  querying it", that is, the stored precedence.\<close>

definition getBinaryPrecedence :: "PrototypeAST \<Rightarrow> 32 word" where
  "getBinaryPrecedence p = precedence p"

subsection \<open>Characters that are returned as they are\<close>

text \<open>The values of \<open>LastChar\<close> that pass every test of \<open>gettok\<close> and reach its last three
  lines (95-97): not a blank, not a letter, not a digit or decimal point, not \<open>#\<close>, not
  \<open>EOF\<close>.\<close>

definition unclassified :: "int \<Rightarrow> bool" where
  "unclassified c \<longleftrightarrow> \<not> isspace c \<and> \<not> isalpha c \<and> \<not> isdigit c \<and> c \<noteq> ord CHR ''.'' \<and>
     c \<noteq> ord CHR ''#'' \<and> c \<noteq> EOF"

section \<open>Properties\<close>

subsection \<open>The C library\<close>

declare ws_loop.simps [simp del] ident_loop.simps [simp del] num_loop.simps [simp del]
  comment_loop.simps [simp del]

lemma getchar_Nil [simp]: "getchar [] = (EOF, [])"
  by (simp add: getchar_def)

lemma getchar_Cons [simp]: "getchar (c # cs) = (ord c, cs)"
  by (simp add: getchar_def)

lemma advance_eq [simp]: "advance inp = getchar inp"
  by (simp add: advance_def)

lemma ord_range: "0 \<le> ord c \<and> ord c \<le> 255"
proof -
  have "of_nat (of_char c :: nat) = (ord c)" by (simp add: of_nat_of_char)
  moreover have "(of_char c :: nat) < 256" by simp
  ultimately show ?thesis by linarith
qed

lemma ord_neq_EOF [simp]: "ord c \<noteq> EOF"
  using ord_range [of c] by (simp add: EOF_def)

lemma ord_eq_iff [simp]: "ord x = ord y \<longleftrightarrow> x = y"
  by (rule of_char_eq_iff)

lemma ord_eq_dot: "ord c = 46 \<longleftrightarrow> c = CHR ''.''"
  using ord_eq_iff [of c "CHR ''.''"] by simp

lemma ord_eq_nl: "ord c = 10 \<longleftrightarrow> c = CHR 0x0A"
  using ord_eq_iff [of c "CHR 0x0A"] by simp

lemma ord_eq_cr: "ord c = 13 \<longleftrightarrow> c = CHR 0x0D"
  using ord_eq_iff [of c "CHR 0x0D"] by simp

lemma EOF_class [simp]:
  "\<not> isspace EOF" "\<not> isalpha EOF" "\<not> isdigit EOF" "\<not> isalnum EOF"
  by (simp_all add: isspace_def isalpha_def isdigit_def isalnum_def EOF_def)

subsection \<open>The loops\<close>

lemma ws_loop_stop: "\<not> isspace c \<Longrightarrow> ws_loop c inp = (c, inp)"
  by (simp add: ws_loop.simps [of c])

lemma ws_loop_Nil: "ws_loop c [] = (if isspace c then (EOF, []) else (c, []))"
  by (simp add: ws_loop.simps [of c "[]"] ws_loop_stop)

lemma ws_loop_Cons: "isspace c \<Longrightarrow> ws_loop c (x # inp) = ws_loop (ord x) inp"
  by (simp add: ws_loop.simps [of c "x # inp"])

lemma ws_loop_length: "length (snd (ws_loop c inp)) \<le> length inp"
proof (induction inp arbitrary: c)
  case Nil
  then show ?case by (simp add: ws_loop_Nil)
next
  case (Cons x inp)
  show ?case
  proof (cases "isspace c")
    case True
    with Cons [of "ord x"] show ?thesis by (simp add: ws_loop_Cons)
  next
    case False
    then show ?thesis by (simp add: ws_loop_stop)
  qed
qed

lemma ws_loop_skip:
  assumes "\<forall>x\<in>set ws. isspace (ord x)" and "t = [] \<or> \<not> isspace (ord (hd t))"
    and "c # cs = ws @ t"
  shows "ws_loop (ord c) cs = getchar t"
  using assms
proof (induction ws arbitrary: c cs)
  case Nil
  then show ?case by (auto simp: ws_loop_stop)
next
  case (Cons x ws)
  then have c: "c = x" and cs: "cs = ws @ t" and sp: "isspace (ord c)" by auto
  show ?case
  proof (cases cs)
    case Nil
    with cs sp show ?thesis by (simp add: ws_loop_Nil)
  next
    case (Cons d ds)
    have "ws_loop (ord d) ds = getchar t"
      using Cons.IH [of d ds] Cons.prems cs Cons by simp
    with Cons sp show ?thesis by (simp add: ws_loop_Cons)
  qed
qed

lemma ident_loop_Nil: "ident_loop buf [] = (EOF, buf, [])"
  by (simp add: ident_loop.simps [of buf "[]"])

lemma ident_loop_Cons:
  "ident_loop buf (x # inp) =
     (if isalnum (ord x) then ident_loop (buf @ [x]) inp else (ord x, buf, inp))"
  by (simp add: ident_loop.simps [of buf "x # inp"])

lemma ident_loop_scan:
  assumes "\<forall>x\<in>set xs. isalnum (ord x)" and "rest = [] \<or> \<not> isalnum (ord (hd rest))"
  shows "ident_loop buf (xs @ rest) = (fst (getchar rest), buf @ xs, snd (getchar rest))"
  using assms
proof (induction xs arbitrary: buf)
  case Nil
  then show ?case
    by (cases rest) (simp_all add: ident_loop_Nil ident_loop_Cons)
next
  case (Cons x xs)
  then show ?case
    by (simp add: ident_loop_Cons)
qed

lemma num_loop_Nil: "num_loop NumStr c [] = (EOF, NumStr @ [char_of c], [])"
  by (simp add: num_loop.simps [of NumStr c "[]"] EOF_def isdigit_def)

lemma num_loop_Cons:
  "num_loop NumStr c (x # inp) =
     (if isdigit (ord x) \<or> x = CHR ''.'' then num_loop (NumStr @ [char_of c]) (ord x) inp
      else (ord x, NumStr @ [char_of c], inp))"
  by (simp add: num_loop.simps [of NumStr c "x # inp"] ord_eq_dot)

lemma num_loop_scan:
  assumes "\<forall>x\<in>set xs. isdigit (ord x) \<or> x = CHR ''.''"
    and "rest = [] \<or> \<not> (isdigit (ord (hd rest)) \<or> hd rest = CHR ''.'')"
  shows "num_loop acc (ord x0) (xs @ rest) =
    (fst (getchar rest), acc @ x0 # xs, snd (getchar rest))"
  using assms
proof (induction xs arbitrary: acc x0)
  case Nil
  then show ?case
    by (cases rest) (simp_all add: num_loop_Nil num_loop_Cons)
next
  case (Cons x xs)
  then show ?case
    by (simp add: num_loop_Cons)
qed

lemma comment_loop_Nil: "comment_loop [] = (EOF, [])"
  by (simp add: comment_loop.simps [of "[]"])

lemma comment_loop_Cons:
  "comment_loop (x # inp) =
     (if x \<noteq> CHR 0x0A \<and> x \<noteq> CHR 0x0D then comment_loop inp else (ord x, inp))"
  by (simp add: comment_loop.simps [of "x # inp"] ord_eq_nl ord_eq_cr)

lemma comment_loop_scan:
  assumes "\<forall>x\<in>set body. x \<noteq> CHR 0x0A \<and> x \<noteq> CHR 0x0D"
    and "rest = [] \<or> hd rest = CHR 0x0A \<or> hd rest = CHR 0x0D"
  shows "comment_loop (body @ rest) = getchar rest"
  using assms
proof (induction body)
  case Nil
  then show ?case
    by (cases rest) (auto simp add: comment_loop_Nil comment_loop_Cons)
next
  case (Cons x xs)
  then show ?case
    by (simp add: comment_loop_Cons)
qed

lemma comment_loop_shorter:
  "comment_loop inp = (c, rest) \<Longrightarrow> c \<noteq> EOF \<Longrightarrow> length rest < length inp"
proof (induction inp arbitrary: c rest)
  case Nil
  then show ?case by (simp add: comment_loop_Nil)
next
  case (Cons x xs)
  show ?case
  proof (cases "x \<noteq> CHR 0x0A \<and> x \<noteq> CHR 0x0D")
    case True
    then have "comment_loop (x # xs) = comment_loop xs"
      by (simp add: comment_loop_Cons)
    with Cons show ?thesis by fastforce
  next
    case False
    then have "comment_loop (x # xs) = (ord x, xs)"
      by (auto simp add: comment_loop_Cons)
    with Cons.prems show ?thesis by simp
  qed
qed

subsection \<open>The recursion of gettok\<close>

text \<open>\<open>gettok\<close> calls itself after a comment that ends in a line break. The unread input is
  then strictly shorter than it was on entry.\<close>

lemma rescan_shorter:
  assumes "ws_loop (LastChar w) (stdin w) = (c0, in0)" and "comment_loop in0 = (c1, in1)"
    and "c1 \<noteq> EOF"
  shows "length in1 < length (stdin w)"
proof -
  have "length in1 < length in0"
    using comment_loop_shorter assms(2,3) by blast
  moreover have "length in0 \<le> length (stdin w)"
    using ws_loop_length [of "LastChar w" "stdin w"] assms(1) by simp
  ultimately show ?thesis by simp
qed

termination gettok
proof (relation "measure (\<lambda>(strtod, tok, w, L). length (stdin w))")
  show "wf (measure (\<lambda>(strtod, tok, w, L). length (stdin w)))" by simp
next
  fix strtod :: "string \<Rightarrow> 'd" and tok :: "Token \<Rightarrow> int" and w :: world and L :: "'d Lexer"
    and c0 in0 in1 c1
  assume "(c0, in0) = ws_loop (LastChar w) (stdin w)"
    and "(c1, in1) = comment_loop in0" and "c1 \<noteq> EOF"
  then have "length in1 < length (stdin w)"
    using rescan_shorter [of w c0 in0 c1 in1] by simp
  then show "((strtod, tok, \<lparr>LastChar = c1, stdin = in1\<rparr>, L), (strtod, tok, w, L))
      \<in> measure (\<lambda>(strtod, tok, w, L). length (stdin w))"
    by simp
qed

declare gettok.simps [simp del]

subsection \<open>One call of gettok, by the shape of the unread input\<close>

text \<open>In each lemma the pending character \<open>c\<close> and standard input \<open>cs\<close> together
  are the unread input \<open>c # cs\<close>, which starts with the blanks \<open>ws\<close>.\<close>

lemma gettok_word:
  assumes ws: "\<forall>x\<in>set ws. isspace (ord x)" and a: "isalpha (ord a)"
    and xs: "\<forall>x\<in>set xs. isalnum (ord x)"
    and rest: "rest = [] \<or> \<not> isalnum (ord (hd rest))"
    and s: "c # cs = ws @ a # xs @ rest"
  shows "gettok strtod tok \<lparr>LastChar = ord c, stdin = cs\<rparr> L =
    (tok (keyword_or_identifier (a # xs)),
     \<lparr>LastChar = fst (getchar rest), stdin = snd (getchar rest)\<rparr>,
     L\<lparr>identifierStr := a # xs\<rparr>)"
proof -
  have "\<not> isspace (ord a)"
    using a by (auto simp: isalpha_def isspace_def)
  then have "ws_loop (ord c) cs = (ord a, xs @ rest)"
    using ws_loop_skip [OF ws _ s] by simp
  moreover have "ident_loop [a] (xs @ rest) = (fst (getchar rest), a # xs, snd (getchar rest))"
    using ident_loop_scan [OF xs rest, of "[a]"] by simp
  ultimately show ?thesis
    using a by (simp add: gettok.simps [of strtod tok "\<lparr>LastChar = ord c, stdin = cs\<rparr>"])
qed

lemma gettok_digits:
  assumes ws: "\<forall>x\<in>set ws. isspace (ord x)" and a: "isdigit (ord a) \<or> a = CHR ''.''"
    and xs: "\<forall>x\<in>set xs. isdigit (ord x) \<or> x = CHR ''.''"
    and rest: "rest = [] \<or> \<not> (isdigit (ord (hd rest)) \<or> hd rest = CHR ''.'')"
    and s: "c # cs = ws @ a # xs @ rest"
  shows "gettok strtod tok \<lparr>LastChar = ord c, stdin = cs\<rparr> L =
    (tok tok_number,
     \<lparr>LastChar = fst (getchar rest), stdin = snd (getchar rest)\<rparr>,
     L\<lparr>numVal := strtod (a # xs)\<rparr>)"
proof -
  have na: "\<not> isspace (ord a)" "\<not> isalpha (ord a)"
    using a by (auto simp: isalpha_def isspace_def isdigit_def)
  then have "ws_loop (ord c) cs = (ord a, xs @ rest)"
    using ws_loop_skip [OF ws _ s] by simp
  moreover have "num_loop [] (ord a) (xs @ rest) = (fst (getchar rest), a # xs, snd (getchar rest))"
    using num_loop_scan [OF xs rest, of "[]" a] by simp
  ultimately show ?thesis
    using a na by (auto simp add: gettok.simps [of strtod tok "\<lparr>LastChar = ord c, stdin = cs\<rparr>"])
qed

lemma gettok_comment:
  assumes ws: "\<forall>x\<in>set ws. isspace (ord x)"
    and body: "\<forall>x\<in>set body. x \<noteq> CHR 0x0A \<and> x \<noteq> CHR 0x0D"
    and nl: "nl = CHR 0x0A \<or> nl = CHR 0x0D"
    and s: "c # cs = ws @ CHR ''#'' # body @ nl # rest"
  shows "gettok strtod tok \<lparr>LastChar = ord c, stdin = cs\<rparr> L =
    gettok strtod tok \<lparr>LastChar = ord nl, stdin = rest\<rparr> L"
proof -
  have "ws_loop (ord c) cs = (ord CHR ''#'', body @ nl # rest)"
    using ws_loop_skip [OF ws _ s] by (simp add: isspace_def)
  moreover have "comment_loop (body @ nl # rest) = (ord nl, rest)"
    using comment_loop_scan [OF body, of "nl # rest"] nl by auto
  ultimately show ?thesis
    by (simp add: gettok.simps [of strtod tok "\<lparr>LastChar = ord c, stdin = cs\<rparr>"]
        isalpha_def isdigit_def)
qed

lemma gettok_comment_eof:
  assumes ws: "\<forall>x\<in>set ws. isspace (ord x)"
    and body: "\<forall>x\<in>set body. x \<noteq> CHR 0x0A \<and> x \<noteq> CHR 0x0D"
    and s: "c # cs = ws @ CHR ''#'' # body"
  shows "gettok strtod tok \<lparr>LastChar = ord c, stdin = cs\<rparr> L =
    (tok tok_eof, \<lparr>LastChar = EOF, stdin = []\<rparr>, L)"
proof -
  have "ws_loop (ord c) cs = (ord CHR ''#'', body)"
    using ws_loop_skip [OF ws _ s] by (simp add: isspace_def)
  moreover have "comment_loop body = (EOF, [])"
    using comment_loop_scan [OF body, of "[]"] by simp
  ultimately show ?thesis
    by (simp add: gettok.simps [of strtod tok "\<lparr>LastChar = ord c, stdin = cs\<rparr>"]
        isalpha_def isdigit_def eof_or_char_def)
qed

lemma gettok_other:
  assumes ws: "\<forall>x\<in>set ws. isspace (ord x)"
    and x: "\<not> isspace (ord x)" "\<not> isalpha (ord x)" "\<not> isdigit (ord x)" "x \<noteq> CHR ''.''"
      "x \<noteq> CHR ''#''"
    and s: "c # cs = ws @ x # rest"
  shows "gettok strtod tok \<lparr>LastChar = ord c, stdin = cs\<rparr> L =
    (ord x, \<lparr>LastChar = fst (getchar rest), stdin = snd (getchar rest)\<rparr>, L)"
proof -
  have "ws_loop (ord c) cs = (ord x, rest)"
    using ws_loop_skip [OF ws _ s] x(1) by simp
  moreover have "ord x \<noteq> ord CHR ''.''" "ord x \<noteq> ord CHR ''#''"
    using x(4,5) by (simp_all only: ord_eq_iff not_False_eq_True)
  ultimately show ?thesis
    using x(2,3)
    by (simp add: gettok.simps [of strtod tok "\<lparr>LastChar = ord c, stdin = cs\<rparr>"]
        eof_or_char_def split: prod.splits)
qed

lemma gettok_EOF:
  assumes "LastChar w = EOF"
  shows "gettok strtod tok w L = (tok tok_eof, w, L)"
proof -
  have "ws_loop (LastChar w) (stdin w) = (EOF, stdin w)"
    using assms by (simp add: ws_loop_stop)
  moreover have "\<lparr>LastChar = EOF, stdin = stdin w\<rparr> = w"
    using assms by simp
  ultimately show ?thesis
    by (simp add: gettok.simps [of strtod tok w] eof_or_char_def EOF_def isalpha_def isdigit_def)
qed

lemma gettok_blank_end:
  assumes ws: "\<forall>x\<in>set cs. isspace (ord x)" and c: "isspace c"
  shows "gettok strtod tok \<lparr>LastChar = c, stdin = cs\<rparr> L =
    (tok tok_eof, \<lparr>LastChar = EOF, stdin = []\<rparr>, L)"
proof -
  have "ws_loop c cs = (EOF, [])"
    using ws c by (induction cs arbitrary: c) (simp_all add: ws_loop_Nil ws_loop_Cons)
  then show ?thesis
    by (simp add: gettok.simps [of strtod tok "\<lparr>LastChar = c, stdin = cs\<rparr>"]
        eof_or_char_def EOF_def isalpha_def isdigit_def)
qed

subsection \<open>Keywords and the instances\<close>

lemma inj_tutorial_tok: "inj tutorial_tok"
proof (rule injI)
  fix x y assume "tutorial_tok x = tutorial_tok y"
  then show "x = y" by (cases x; cases y; simp)
qed

lemma keyword_cases:
  assumes "(kw, k) \<in> set keyword_kinds"
  shows "kw = ''def'' \<and> k = tok_def \<or> kw = ''extern'' \<and> k = tok_extern
    \<or> kw = ''if'' \<and> k = tok_if \<or> kw = ''then'' \<and> k = tok_then
    \<or> kw = ''else'' \<and> k = tok_else \<or> kw = ''for'' \<and> k = tok_for
    \<or> kw = ''in'' \<and> k = tok_in \<or> kw = ''unary'' \<and> k = tok_unary
    \<or> kw = ''binary'' \<and> k = tok_binary \<or> kw = ''var'' \<and> k = tok_var"
  using assms unfolding keyword_kinds_def 
  by (simp only: list.set insert_iff empty_iff prod.inject simp_thms)

lemma keyword_shape:
  assumes "(kw, k) \<in> set keyword_kinds"
  shows "kw = hd kw # tl kw \<and> isalpha (ord (hd kw)) \<and> (\<forall>x\<in>set (tl kw). isalnum (ord x)) \<and>
    keyword_or_identifier kw = k \<and> k \<noteq> tok_identifier"
  using keyword_cases [OF assms]
  by (elim disjE conjE; simp add: keyword_or_identifier_def isalpha_def isalnum_def)

lemma not_keyword:
  "s \<notin> set keyword_strings \<Longrightarrow> keyword_or_identifier s = tok_identifier"
  by (simp add: keyword_strings_def keyword_kinds_def keyword_or_identifier_def)

lemma strtod_decimal_ex: "strtod_decimal ''1.2.3'' = 6 / 5"
  by (simp add: strtod_decimal_def digits_value_def isdigit_def)

subsection \<open>What a call can return, and totality\<close>

lemma ws_loop_not_space: "\<not> isspace (fst (ws_loop c inp))"
proof (induction inp arbitrary: c)
  case Nil
  then show ?case by (simp add: ws_loop_Nil)
next
  case (Cons x inp)
  show ?case
  proof (cases "isspace c")
    case True
    with Cons [of "ord x"] show ?thesis by (simp add: ws_loop_Cons)
  next
    case False
    then show ?thesis by (simp add: ws_loop_stop)
  qed
qed

lemma eof_or_char_cases:
  assumes "eof_or_char tok c inp L = (t, w', L')"
  shows "L' = L \<and> (if c = EOF then t = tok tok_eof else t = c)"
  using assms by (auto simp: eof_or_char_def split: if_splits prod.splits)

lemma gettok_result_cases:
  "gettok strtod tok w L = (t, w', L') \<Longrightarrow>
     (L' = L \<and> (t = tok tok_eof \<or> unclassified t)) \<or>
     (\<exists>ident. L' = L\<lparr>identifierStr := ident\<rparr> \<and> t = tok (keyword_or_identifier ident)) \<or>
     (\<exists>NumStr. L' = L\<lparr>numVal := strtod NumStr\<rparr> \<and> t = tok tok_number)"
proof (induction strtod tok w L rule: gettok.induct)
  case (1 strtod tok w L)
  obtain c0 in0 where ws: "ws_loop (LastChar w) (stdin w) = (c0, in0)"
    by (cases "ws_loop (LastChar w) (stdin w)")
  have nsp: "\<not> isspace c0"
    using ws_loop_not_space [of "LastChar w" "stdin w"] ws by simp
  consider (word) "isalpha c0"
    | (num) "\<not> isalpha c0" "isdigit c0 \<or> c0 = ord CHR ''.''"
    | (comment) "\<not> isalpha c0" "\<not> (isdigit c0 \<or> c0 = ord CHR ''.'')" "c0 = ord CHR ''#''"
    | (other) "\<not> isalpha c0" "\<not> (isdigit c0 \<or> c0 = ord CHR ''.'')" "c0 \<noteq> ord CHR ''#''"
    by blast
  then show ?case
  proof cases
    case word
    obtain c1 ident in1 where "ident_loop [char_of c0] in0 = (c1, ident, in1)"
      by (cases "ident_loop [char_of c0] in0")
    with word ws "1.prems" show ?thesis
      by (simp add: gettok.simps [of strtod tok w]) blast
  next
    case num
    obtain c1 NumStr in1 where "num_loop [] c0 in0 = (c1, NumStr, in1)"
      by (cases "num_loop [] c0 in0")
    with num ws "1.prems" show ?thesis
      by (simp add: gettok.simps [of strtod tok w]) blast
  next
    case comment
    obtain c1 in1 where cm: "comment_loop in0 = (c1, in1)"
      by (cases "comment_loop in0")
    show ?thesis
    proof (cases "c1 = EOF")
      case True
      with comment ws cm "1.prems" have "eof_or_char tok c1 in1 L = (t, w', L')"
        by (simp add: gettok.simps [of strtod tok w])
      from eof_or_char_cases [OF this] True show ?thesis by simp
    next
      case False
      with comment ws cm "1.prems"
      have "gettok strtod tok \<lparr>LastChar = c1, stdin = in1\<rparr> L = (t, w', L')"
        by (simp add: gettok.simps [of strtod tok w])
      with "1.IH" [OF ws [symmetric] comment(1,2,3) cm [symmetric] False] show ?thesis
        by simp
    qed
  next
    case other
    with ws "1.prems" have "eof_or_char tok c0 in0 L = (t, w', L')"
      by (simp add: gettok.simps [of strtod tok w])
    from eof_or_char_cases [OF this] have "L' = L" and "if c0 = EOF then t = tok tok_eof else t = c0"
      by simp_all
    then have "L' = L \<and> (t = tok tok_eof \<or> unclassified t)"
      using other nsp by (cases "c0 = EOF") (simp_all add: unclassified_def)
    then show ?thesis by simp
  qed
qed

lemma gettok_object_free:
  "fst (gettok strtod tok w L) = fst (gettok strtod tok w L0) \<and>
   fst (snd (gettok strtod tok w L)) = fst (snd (gettok strtod tok w L0))"
proof (induction strtod tok w L rule: gettok.induct)
  case (1 strtod tok w L)
  obtain c0 in0 where ws: "ws_loop (LastChar w) (stdin w) = (c0, in0)"
    by (cases "ws_loop (LastChar w) (stdin w)")
  obtain c1 in1 where cm: "comment_loop in0 = (c1, in1)"
    by (cases "comment_loop in0")
  show ?case
  proof (cases "\<not> isalpha c0 \<and> \<not> (isdigit c0 \<or> c0 = ord CHR ''.'') \<and> c0 = ord CHR ''#'' \<and> c1 \<noteq> EOF")
    case True
    then have "gettok strtod tok w L = gettok strtod tok \<lparr>LastChar = c1, stdin = in1\<rparr> L"
      "gettok strtod tok w L0 = gettok strtod tok \<lparr>LastChar = c1, stdin = in1\<rparr> L0"
      using ws cm by (simp_all add: gettok.simps [of strtod tok w] isalpha_def isdigit_def)
    moreover have "fst (gettok strtod tok \<lparr>LastChar = c1, stdin = in1\<rparr> L) =
        fst (gettok strtod tok \<lparr>LastChar = c1, stdin = in1\<rparr> L0) \<and>
      fst (snd (gettok strtod tok \<lparr>LastChar = c1, stdin = in1\<rparr> L)) =
        fst (snd (gettok strtod tok \<lparr>LastChar = c1, stdin = in1\<rparr> L0))"
      using True
      by (intro "1.IH" [OF ws [symmetric] _ _ _ cm [symmetric]])
         (simp_all add: isalpha_def isdigit_def)
    ultimately show ?thesis
      by simp
  next
    case False
    then show ?thesis
      using ws cm
      by (auto simp add: gettok.simps [of strtod tok w] eof_or_char_def split: prod.splits)
  qed
qed

lemma gettok_run_EOF:
  "LastChar w = EOF \<Longrightarrow> map fst (gettok_run strtod tok n w L) = replicate n (tok tok_eof)"
  by (induction n) (simp_all add: gettok_EOF)

lemma ws_loop_dom_all: "ws_loop_dom (c, inp)"
proof -
  have "All ws_loop_dom"
    by (relation "measure (\<lambda>(c, inp). 2 * length inp + (if isspace c then 1 else 0))")
       (auto simp: getchar_def EOF_def isspace_def split: list.splits)
  then show ?thesis by simp
qed

lemma ident_loop_dom_all: "ident_loop_dom (buf, inp)"
proof -
  have "All ident_loop_dom"
    by (relation "measure (\<lambda>(buf, inp). length inp)")
       (auto simp: getchar_def EOF_def isalnum_def isalpha_def isdigit_def split: list.splits)
  then show ?thesis by simp
qed

lemma num_loop_dom_all: "num_loop_dom (NumStr, c, inp)"
proof -
  have "All num_loop_dom"
    by (relation "measure (\<lambda>(NumStr, c, inp). length inp)")
       (auto simp: getchar_def EOF_def isdigit_def split: list.splits)
  then show ?thesis by simp
qed

lemma comment_loop_dom_all: "comment_loop_dom inp"
proof -
  have "All comment_loop_dom"
    by (relation "measure length") (auto simp: getchar_def EOF_def split: list.splits)
  then show ?thesis by simp
qed

lemma gettok_dom_all:
  fixes strtod :: "string \<Rightarrow> 'd" and L :: "'d Lexer"
  shows "gettok_dom (strtod, tok, w, L)"
proof -
  let ?R = "measure (\<lambda>(strtod :: string \<Rightarrow> 'd, tok :: Token \<Rightarrow> int, w, L :: 'd Lexer). length (stdin w))"
  have "All (gettok_dom :: (string \<Rightarrow> 'd) \<times> (Token \<Rightarrow> int) \<times> world \<times> 'd Lexer \<Rightarrow> bool)"
  proof (relation ?R)
    show "wf ?R" by simp
  next
    fix strtod :: "string \<Rightarrow> 'd" and tok :: "Token \<Rightarrow> int" and w :: world and L :: "'d Lexer"
      and c0 in0 in1 c1
    assume "(c0, in0) = ws_loop (LastChar w) (stdin w)"
      and "(c1, in1) = comment_loop in0" and "c1 \<noteq> EOF"
    then have "length in1 < length (stdin w)"
      using rescan_shorter [of w c0 in0 c1 in1] by simp
    then show "((strtod, tok, \<lparr>LastChar = c1, stdin = in1\<rparr>, L), (strtod, tok, w, L)) \<in> ?R"
      by simp
  qed
  then show ?thesis by simp
qed

lemma gettok_fuel_enough:
  "length (stdin w) < n \<Longrightarrow> gettok_fuel n strtod tok w L = Some (gettok strtod tok w L)"
proof (induction n arbitrary: w)
  case 0
  then show ?case by simp
next
  case (Suc n)
  obtain c0 in0 where ws: "ws_loop (LastChar w) (stdin w) = (c0, in0)"
    by (cases "ws_loop (LastChar w) (stdin w)")
  obtain c1 in1 where cm: "comment_loop in0 = (c1, in1)"
    by (cases "comment_loop in0")
  show ?case
  proof (cases "c1 \<noteq> EOF")
    case True
    from rescan_shorter [OF ws cm True] Suc.prems
    have "length (stdin \<lparr>LastChar = c1, stdin = in1\<rparr>) < n"
      by simp
    from Suc.IH [OF this] ws cm show ?thesis
      by (simp add: gettok.simps [of strtod tok w] split: prod.splits)
  next
    case False
    with ws cm show ?thesis
      by (simp add: gettok.simps [of strtod tok w] split: prod.splits)
  qed
qed

subsection \<open>The example of the comment\<close>

lemma strtod_decimal_1: "strtod_decimal ''1'' = 1"
  by (simp add: strtod_decimal_def digits_value_def isdigit_def)

lemma strtod_decimal_2: "strtod_decimal ''2'' = 2"
  by (simp add: strtod_decimal_def digits_value_def isdigit_def)

lemma run_example:
  "gettok_run strtod tok 3 (world_init (''1 # c'' @ CHR 0x0A # ''2'')) L =
     [(tok tok_number, L\<lparr>numVal := strtod ''1''\<rparr>),
      (tok tok_number, L\<lparr>numVal := strtod ''2''\<rparr>),
      (tok tok_eof, L\<lparr>numVal := strtod ''2''\<rparr>)]"
proof -
  let ?L1 = "L\<lparr>numVal := strtod ''1''\<rparr>" and ?L2 = "L\<lparr>numVal := strtod ''2''\<rparr>"
  have 1: "gettok strtod tok \<lparr>LastChar = ord CHR '' '', stdin = ''1 # c'' @ CHR 0x0A # ''2''\<rparr> L =
      (tok tok_number, \<lparr>LastChar = ord CHR '' '', stdin = ''# c'' @ CHR 0x0A # ''2''\<rparr>, ?L1)"
    using gettok_digits [of "'' ''" "CHR ''1''" "[]" "'' # c'' @ CHR 0x0A # ''2''" "CHR '' ''"
        "''1 # c'' @ CHR 0x0A # ''2''" strtod tok L]
    by (simp add: isspace_def isdigit_def)
  have 2: "gettok strtod tok \<lparr>LastChar = ord CHR '' '', stdin = ''# c'' @ CHR 0x0A # ''2''\<rparr> ?L1 =
      gettok strtod tok \<lparr>LastChar = ord CHR 0x0A, stdin = ''2''\<rparr> ?L1"
    using gettok_comment [of "'' ''" "'' c''" "CHR 0x0A" "CHR '' ''" "''# c'' @ CHR 0x0A # ''2''"
        "''2''" strtod tok ?L1]
    by (simp add: isspace_def)
  have 3: "gettok strtod tok \<lparr>LastChar = ord CHR 0x0A, stdin = ''2''\<rparr> ?L1 =
      (tok tok_number, \<lparr>LastChar = EOF, stdin = []\<rparr>, ?L2)"
    using gettok_digits [of "[CHR 0x0A]" "CHR ''2''" "[]" "[]" "CHR 0x0A" "''2''" strtod tok ?L1]
    by (simp add: isspace_def isdigit_def)
  have 4: "gettok strtod tok \<lparr>LastChar = EOF, stdin = []\<rparr> ?L2 =
      (tok tok_eof, \<lparr>LastChar = EOF, stdin = []\<rparr>, ?L2)"
    by (rule gettok_EOF) simp
  have 5: "gettok strtod tok \<lparr>LastChar = 32, stdin = ''1 # c'' @ CHR 0x0A # ''2''\<rparr> L =
      (tok tok_number, \<lparr>LastChar = 32, stdin = ''# c'' @ CHR 0x0A # ''2''\<rparr>, ?L1)"
    using 1 by simp
  have 6: "gettok strtod tok \<lparr>LastChar = 32, stdin = ''# c'' @ CHR 0x0A # ''2''\<rparr> ?L1 =
      (tok tok_number, \<lparr>LastChar = EOF, stdin = []\<rparr>, ?L2)"
    using 2 3 by simp
  have "gettok_run strtod tok (Suc (Suc (Suc 0))) (world_init (''1 # c'' @ CHR 0x0A # ''2'')) L =
     [(tok tok_number, ?L1), (tok tok_number, ?L2), (tok tok_eof, ?L2)]"
    unfolding world_init_def using 4 5 6 by simp
  then show ?thesis by (simp add: numeral_3_eq_3)
qed

section \<open>The claims\<close>

text \<open>
  C1. The unread input is blanks \<open>ws\<close>, then one of the ten keywords, then either nothing
  or a character that is not alphanumeric. Then \<open>gettok\<close> returns the kind of that keyword,
  an enumerator other than the generic identifier kind; where the enumerators have distinct
  values, the value returned is not the value of the generic identifier kind.
\<close>

theorem gettok_keyword:
  assumes "(kw, k) \<in> set keyword_kinds"
    and "\<forall>x\<in>set ws. isspace (ord x)"
    and "rest = [] \<or> \<not> isalnum (ord (hd rest))"
    and "c # cs = ws @ kw @ rest"
  shows "fst (gettok strtod tok \<lparr>LastChar = ord c, stdin = cs\<rparr> L) = tok k \<and>
    k \<noteq> tok_identifier \<and>
    (inj tok \<longrightarrow>
       fst (gettok strtod tok \<lparr>LastChar = ord c, stdin = cs\<rparr> L) \<noteq> tok tok_identifier)"
proof -
  note shape = keyword_shape [OF assms(1)]
  from shape have kw: "kw = hd kw # tl kw" and a: "isalpha (ord (hd kw))"
    and xs: "\<forall>x\<in>set (tl kw). isalnum (ord x)" and k: "keyword_or_identifier kw = k"
    and ne: "k \<noteq> tok_identifier"
    by simp_all
  have "c # cs = ws @ hd kw # tl kw @ rest"
    using assms(4) kw by (metis append_Cons)
  from gettok_word [OF assms(2) a xs assms(3) this, of strtod tok L]
  have r: "fst (gettok strtod tok \<lparr>LastChar = ord c, stdin = cs\<rparr> L) = tok k"
    using k kw by simp
  have "tok k \<noteq> tok tok_identifier" if "inj tok"
    using ne that by (simp add: inj_eq)
  with r ne show ?thesis by simp
qed

theorem gettok_keyword_witness:
  "(''def'', tok_def) \<in> set keyword_kinds \<and>
   list_all (\<lambda>x. isspace (ord x)) '' '' \<and>
   (''(x)'' = [] \<or> \<not> isalnum (ord (hd ''(x)''))) \<and>
   CHR '' '' # ''def(x)'' = '' '' @ ''def'' @ ''(x)'' \<and>
   inj tutorial_tok \<and>
   fst (gettok strtod_decimal tutorial_tok (world_init ''def(x)'')
          \<lparr>identifierStr = [], numVal = 0\<rparr>) = - 2 \<and>
   fst (gettok strtod_decimal tutorial_tok (world_init ''def(x)'')
          \<lparr>identifierStr = [], numVal = 0\<rparr>) \<noteq> tutorial_tok tok_identifier"
proof -
  have h1: "(''def'', tok_def) \<in> set keyword_kinds"
    by (simp add: keyword_kinds_def)
  have h2: "\<forall>x\<in>set '' ''. isspace (ord x)"
    by (simp add: isspace_def)
  have h3: "''(x)'' = [] \<or> \<not> isalnum (ord (hd ''(x)''))"
    by (simp add: isalnum_def isalpha_def isdigit_def)
  have h4: "CHR '' '' # ''def(x)'' = '' '' @ ''def'' @ ''(x)''"
    by simp
  show ?thesis
    using gettok_keyword [OF h1 h2 h3 h4, of strtod_decimal tutorial_tok
        "\<lparr>identifierStr = [], numVal = 0\<rparr>"] h1 h2 h3 inj_tutorial_tok
    by (simp add: world_init_def)
qed

text \<open>
  C2. The unread input is blanks, then a text \<open>a # xs\<close> of digits and decimal points, then
  either nothing or a character that is neither. Then \<open>gettok\<close> returns the number kind and
  \<open>getNum\<close> returns what \<open>strtod\<close> makes of exactly that text, however many decimal points
  it holds: there is no branch that rejects it.
\<close>

theorem gettok_number:
  assumes "isdigit (ord a) \<or> a = CHR ''.''"
    and "\<forall>x\<in>set xs. isdigit (ord x) \<or> x = CHR ''.''"
    and "\<forall>x\<in>set ws. isspace (ord x)"
    and "rest = [] \<or> \<not> (isdigit (ord (hd rest)) \<or> hd rest = CHR ''.'')"
    and "c # cs = ws @ (a # xs) @ rest"
  shows "fst (gettok strtod tok \<lparr>LastChar = ord c, stdin = cs\<rparr> L) = tok tok_number \<and>
    getNum (snd (snd (gettok strtod tok \<lparr>LastChar = ord c, stdin = cs\<rparr> L))) = strtod (a # xs)"
proof -
  have "c # cs = ws @ a # xs @ rest"
    using assms(5) by simp
  from gettok_digits [OF assms(3) assms(1) assms(2) assms(4) this, of strtod tok L]
  show ?thesis
    by (simp add: getNum_def)
qed

theorem gettok_number_witness:
  "(isdigit (ord CHR ''1'') \<or> CHR ''1'' = CHR ''.'') \<and>
   list_all (\<lambda>x. isdigit (ord x) \<or> x = CHR ''.'') ''.2.3'' \<and>
   list_all (\<lambda>x. isspace (ord x)) '' '' \<and>
   (''+y'' = [] \<or> \<not> (isdigit (ord (hd ''+y'')) \<or> hd ''+y'' = CHR ''.'')) \<and>
   CHR '' '' # ''1.2.3+y'' = '' '' @ ''1.2.3'' @ ''+y'' \<and>
   fst (gettok strtod_decimal tutorial_tok (world_init ''1.2.3+y'')
          \<lparr>identifierStr = [], numVal = 0\<rparr>) = - 5 \<and>
   getNum (snd (snd (gettok strtod_decimal tutorial_tok (world_init ''1.2.3+y'')
          \<lparr>identifierStr = [], numVal = 0\<rparr>))) = 6 / 5"
proof -
  have h1: "isdigit (ord CHR ''1'') \<or> CHR ''1'' = CHR ''.''"
    by (simp add: isdigit_def)
  have h2: "\<forall>x\<in>set ''.2.3''. isdigit (ord x) \<or> x = CHR ''.''"
    by (simp add: isdigit_def)
  have h3: "\<forall>x\<in>set '' ''. isspace (ord x)"
    by (simp add: isspace_def)
  have h4: "''+y'' = [] \<or> \<not> (isdigit (ord (hd ''+y'')) \<or> hd ''+y'' = CHR ''.'')"
    by (simp add: isdigit_def)
  have h5: "CHR '' '' # ''1.2.3+y'' = '' '' @ ''1.2.3'' @ ''+y''"
    by simp
  show ?thesis
    using gettok_number [OF h1 h2 h3 h4 h5, of strtod_decimal tutorial_tok
        "\<lparr>identifierStr = [], numVal = 0\<rparr>"] h1 h2 h3 h4 strtod_decimal_ex
    by (simp add: world_init_def)
qed

text \<open>
  C3. The unread input is blanks, then a word \<open>a # xs\<close> that starts with a letter, goes on
  with letters and digits and is none of the ten keywords, then either nothing or a character
  that is not alphanumeric. Then \<open>gettok\<close> returns the generic identifier kind and \<open>getId\<close>
  returns exactly the word.
\<close>

theorem gettok_identifier:
  assumes "isalpha (ord a)" and "\<forall>x\<in>set xs. isalnum (ord x)"
    and "a # xs \<notin> set keyword_strings"
    and "\<forall>x\<in>set ws. isspace (ord x)"
    and "rest = [] \<or> \<not> isalnum (ord (hd rest))"
    and "c # cs = ws @ (a # xs) @ rest"
  shows "fst (gettok strtod tok \<lparr>LastChar = ord c, stdin = cs\<rparr> L) = tok tok_identifier \<and>
    getId (snd (snd (gettok strtod tok \<lparr>LastChar = ord c, stdin = cs\<rparr> L))) = a # xs"
proof -
  have "c # cs = ws @ a # xs @ rest"
    using assms(6) by simp
  from gettok_word [OF assms(4) assms(1) assms(2) assms(5) this, of strtod tok L]
  show ?thesis
    using not_keyword [OF assms(3)] by (simp add: getId_def)
qed

theorem gettok_identifier_witness:
  "isalpha (ord CHR ''d'') \<and> list_all (\<lambda>x. isalnum (ord x)) ''efX1'' \<and>
   ''defX1'' \<notin> set keyword_strings \<and>
   list_all (\<lambda>x. isspace (ord x)) '' '' \<and>
   (''+y'' = [] \<or> \<not> isalnum (ord (hd ''+y''))) \<and>
   CHR '' '' # ''defX1+y'' = '' '' @ ''defX1'' @ ''+y'' \<and>
   fst (gettok strtod_decimal tutorial_tok (world_init ''defX1+y'')
          \<lparr>identifierStr = [], numVal = 0\<rparr>) = - 4 \<and>
   getId (snd (snd (gettok strtod_decimal tutorial_tok (world_init ''defX1+y'')
          \<lparr>identifierStr = [], numVal = 0\<rparr>))) = ''defX1''"
proof -
  have h1: "isalpha (ord CHR ''d'')"
    by (simp add: isalpha_def)
  have h2: "\<forall>x\<in>set ''efX1''. isalnum (ord x)"
    by (simp add: isalnum_def isalpha_def isdigit_def)
  have h3: "''defX1'' \<notin> set keyword_strings"
    by (simp add: keyword_strings_def keyword_kinds_def)
  have h4: "\<forall>x\<in>set '' ''. isspace (ord x)"
    by (simp add: isspace_def)
  have h5: "''+y'' = [] \<or> \<not> isalnum (ord (hd ''+y''))"
    by (simp add: isalnum_def isalpha_def isdigit_def)
  have h6: "CHR '' '' # ''defX1+y'' = '' '' @ ''defX1'' @ ''+y''"
    by simp
  show ?thesis
    using gettok_identifier [OF h1 h2 h3 h4 h5 h6, of strtod_decimal tutorial_tok
        "\<lparr>identifierStr = [], numVal = 0\<rparr>"] h1 h2 h3 h4 h5
    by (simp add: world_init_def)
qed

text \<open>
  C4. A comment yields no token. Where the unread input is blanks, \<open>#\<close>, a body without line
  break, a line break \<open>nl\<close> and the rest, \<open>gettok\<close> returns what it returns from the line
  break on: the scan goes on behind the comment. Where the body runs to the end of the input,
  \<open>gettok\<close> returns the end-of-input kind. On the input \<open>1 # c\n2\<close> three calls return the
  number kind with payload \<open>strtod "1"\<close>, the number kind with payload \<open>strtod "2"\<close> and the
  end-of-input kind.
\<close>

theorem gettok_comment_discarded:
  assumes "\<forall>x\<in>set ws. isspace (ord x)"
    and "\<forall>x\<in>set body. x \<noteq> CHR 0x0A \<and> x \<noteq> CHR 0x0D"
  shows "(nl = CHR 0x0A \<or> nl = CHR 0x0D \<longrightarrow> c # cs = ws @ CHR ''#'' # body @ nl # rest \<longrightarrow>
      gettok strtod tok \<lparr>LastChar = ord c, stdin = cs\<rparr> L =
      gettok strtod tok \<lparr>LastChar = ord nl, stdin = rest\<rparr> L) \<and>
    (c # cs = ws @ CHR ''#'' # body \<longrightarrow>
      gettok strtod tok \<lparr>LastChar = ord c, stdin = cs\<rparr> L =
      (tok tok_eof, \<lparr>LastChar = EOF, stdin = []\<rparr>, L)) \<and>
    gettok_run strtod tok 3 (world_init (''1 # c'' @ CHR 0x0A # ''2'')) L =
      [(tok tok_number, L\<lparr>numVal := strtod ''1''\<rparr>),
       (tok tok_number, L\<lparr>numVal := strtod ''2''\<rparr>),
       (tok tok_eof, L\<lparr>numVal := strtod ''2''\<rparr>)]"
proof (intro conjI impI)
  assume "nl = CHR 0x0A \<or> nl = CHR 0x0D" and "c # cs = ws @ CHR ''#'' # body @ nl # rest"
  then show "gettok strtod tok \<lparr>LastChar = ord c, stdin = cs\<rparr> L =
      gettok strtod tok \<lparr>LastChar = ord nl, stdin = rest\<rparr> L"
    by (rule gettok_comment [OF assms])
next
  assume "c # cs = ws @ CHR ''#'' # body"
  then show "gettok strtod tok \<lparr>LastChar = ord c, stdin = cs\<rparr> L =
      (tok tok_eof, \<lparr>LastChar = EOF, stdin = []\<rparr>, L)"
    by (rule gettok_comment_eof [OF assms])
next
  show "gettok_run strtod tok 3 (world_init (''1 # c'' @ CHR 0x0A # ''2'')) L =
      [(tok tok_number, L\<lparr>numVal := strtod ''1''\<rparr>),
       (tok tok_number, L\<lparr>numVal := strtod ''2''\<rparr>),
       (tok tok_eof, L\<lparr>numVal := strtod ''2''\<rparr>)]"
    by (rule run_example)
qed

theorem gettok_comment_discarded_witness:
  "list_all (\<lambda>x. isspace (ord x)) '' '' \<and>
   list_all (\<lambda>x. x \<noteq> CHR 0x0A \<and> x \<noteq> CHR 0x0D) '' c'' \<and>
   gettok strtod_decimal tutorial_tok \<lparr>LastChar = ord CHR '' '', stdin = ''# c'' @ CHR 0x0A # ''2''\<rparr>
       \<lparr>identifierStr = [], numVal = 0\<rparr> =
     gettok strtod_decimal tutorial_tok \<lparr>LastChar = ord CHR 0x0A, stdin = ''2''\<rparr>
       \<lparr>identifierStr = [], numVal = 0\<rparr> \<and>
   gettok strtod_decimal tutorial_tok \<lparr>LastChar = ord CHR '' '', stdin = ''# c''\<rparr>
       \<lparr>identifierStr = [], numVal = 0\<rparr> =
     (- 1, \<lparr>LastChar = EOF, stdin = []\<rparr>, \<lparr>identifierStr = [], numVal = 0\<rparr>) \<and>
   gettok_run strtod_decimal tutorial_tok 3 (world_init (''1 # c'' @ CHR 0x0A # ''2''))
       \<lparr>identifierStr = [], numVal = 0\<rparr> =
     [(- 5, \<lparr>identifierStr = [], numVal = 1\<rparr>), (- 5, \<lparr>identifierStr = [], numVal = 2\<rparr>),
      (- 1, \<lparr>identifierStr = [], numVal = 2\<rparr>)]"
proof -
  have h1: "\<forall>x\<in>set '' ''. isspace (ord x)"
    by (simp add: isspace_def)
  have h2: "\<forall>x\<in>set '' c''. x \<noteq> CHR 0x0A \<and> x \<noteq> CHR 0x0D"
    by simp
  show ?thesis
    using gettok_comment_discarded [OF h1 h2, of "CHR 0x0A" "CHR '' ''" "''# c'' @ CHR 0x0A # ''2''"
        "''2''" strtod_decimal tutorial_tok "\<lparr>identifierStr = [], numVal = 0\<rparr>"]
      gettok_comment_discarded [OF h1 h2, of "CHR 0x0A" "CHR '' ''" "''# c''"
        "''2''" strtod_decimal tutorial_tok "\<lparr>identifierStr = [], numVal = 0\<rparr>"]
      h1 h2 strtod_decimal_1 strtod_decimal_2
    by simp
qed

text \<open>
  C5. \<open>gettok\<close> has no failure: whatever the state, the value it returns is the value of one
  of the enumerators or a character that none of its tests classifies. Such a character
  \<open>x\<close>, after blanks, is returned as its own ordinal value, the object is left as it was,
  and the pending character becomes the one behind \<open>x\<close> (or \<open>EOF\<close>).
\<close>

theorem gettok_never_fails:
  "((\<exists>k. fst (gettok strtod tok w L) = tok k) \<or> unclassified (fst (gettok strtod tok w L))) \<and>
   ((\<forall>b\<in>set ws. isspace (ord b)) \<and> unclassified (ord x) \<and> c # cs = ws @ x # rest \<longrightarrow>
      gettok strtod tok \<lparr>LastChar = ord c, stdin = cs\<rparr> L =
      (ord x, \<lparr>LastChar = fst (getchar rest), stdin = snd (getchar rest)\<rparr>, L))"
proof -
  obtain t w' L' where g: "gettok strtod tok w L = (t, w', L')"
    by (cases "gettok strtod tok w L")
  from gettok_result_cases [OF g]
  have "(\<exists>k. t = tok k) \<or> unclassified t"
    by blast
  with g have 1: "(\<exists>k. fst (gettok strtod tok w L) = tok k) \<or>
      unclassified (fst (gettok strtod tok w L))"
    by simp
  have 2: "gettok strtod tok \<lparr>LastChar = ord c, stdin = cs\<rparr> L =
      (ord x, \<lparr>LastChar = fst (getchar rest), stdin = snd (getchar rest)\<rparr>, L)"
    if "\<forall>b\<in>set ws. isspace (ord b)" and u: "unclassified (ord x)" and "c # cs = ws @ x # rest"
  proof -
    have "x \<noteq> CHR ''.''" "x \<noteq> CHR ''#''"
      using u ord_eq_iff [of x "CHR ''.''"] ord_eq_iff [of x "CHR ''#''"]
      by (auto simp: unclassified_def)
    with that gettok_other [of ws x c cs rest strtod tok L] show ?thesis
      by (simp add: unclassified_def)
  qed
  from 1 2 show ?thesis by blast
qed

theorem gettok_never_fails_witness:
  "list_all (\<lambda>b. isspace (ord b)) '' '' \<and> unclassified (ord CHR ''+'') \<and>
   CHR '' '' # ''+y'' = '' '' @ CHR ''+'' # ''y'' \<and>
   gettok strtod_decimal tutorial_tok (world_init ''+y'') \<lparr>identifierStr = [], numVal = 0\<rparr> =
     (43, \<lparr>LastChar = ord CHR ''y'', stdin = []\<rparr>, \<lparr>identifierStr = [], numVal = 0\<rparr>)"
proof -
  have h1: "\<forall>b\<in>set '' ''. isspace (ord b)"
    by (simp add: isspace_def)
  have h2: "unclassified (ord CHR ''+'')"
    by (simp add: unclassified_def isspace_def isalpha_def isdigit_def EOF_def)
  have h3: "CHR '' '' # ''+y'' = '' '' @ CHR ''+'' # ''y''"
    by simp
  have "gettok strtod_decimal tutorial_tok \<lparr>LastChar = ord CHR '' '', stdin = ''+y''\<rparr>
        \<lparr>identifierStr = [], numVal = 0\<rparr> =
     (ord CHR ''+'', \<lparr>LastChar = fst (getchar ''y''), stdin = snd (getchar ''y'')\<rparr>,
      \<lparr>identifierStr = [], numVal = 0\<rparr>)"
    using gettok_never_fails [of strtod_decimal tutorial_tok "world_init ''+y''"
        "\<lparr>identifierStr = [], numVal = 0\<rparr>" "'' ''" "CHR ''+''" "CHR '' ''" "''+y''" "''y''",
        THEN conjunct2, THEN mp, OF conjI [OF h1 conjI [OF h2 h3]]] .
  then have "gettok strtod_decimal tutorial_tok (world_init ''+y'') \<lparr>identifierStr = [], numVal = 0\<rparr> =
     (43, \<lparr>LastChar = ord CHR ''y'', stdin = []\<rparr>, \<lparr>identifierStr = [], numVal = 0\<rparr>)"
    by (simp add: world_init_def)
  moreover have "list_all (\<lambda>b. isspace (ord b)) '' ''"
    using h1 by (simp add: list_all_iff)
  ultimately show ?thesis using h2 h3 by (intro conjI)
qed

text \<open>
  C6. Once \<open>EOF\<close> is pending, \<open>gettok\<close> returns the end-of-input kind and leaves the
  pending character, standard input and the object as they were, so every one of \<open>n\<close> further
  calls returns the end-of-input kind as well. Where only blanks are left unread, \<open>gettok\<close>
  returns the end-of-input kind too and leaves \<open>EOF\<close> pending.
\<close>

theorem gettok_end_of_input:
  "(LastChar w = EOF \<longrightarrow>
      gettok strtod tok w L = (tok tok_eof, w, L) \<and>
      map fst (gettok_run strtod tok n w L) = replicate n (tok tok_eof)) \<and>
   (isspace c \<and> (\<forall>x\<in>set cs. isspace (ord x)) \<longrightarrow>
      gettok strtod tok \<lparr>LastChar = c, stdin = cs\<rparr> L =
      (tok tok_eof, \<lparr>LastChar = EOF, stdin = []\<rparr>, L))"
  using gettok_EOF [of w strtod tok L] gettok_run_EOF [of w strtod tok n L]
    gettok_blank_end [of cs c strtod tok L]
  by blast

theorem gettok_end_of_input_witness:
  "LastChar \<lparr>LastChar = EOF, stdin = []\<rparr> = EOF \<and>
   gettok strtod_decimal tutorial_tok \<lparr>LastChar = EOF, stdin = []\<rparr>
       \<lparr>identifierStr = ''x'', numVal = 0\<rparr> =
     (- 1, \<lparr>LastChar = EOF, stdin = []\<rparr>, \<lparr>identifierStr = ''x'', numVal = 0\<rparr>) \<and>
   map fst (gettok_run strtod_decimal tutorial_tok 4 \<lparr>LastChar = EOF, stdin = []\<rparr>
       \<lparr>identifierStr = ''x'', numVal = 0\<rparr>) = [- 1, - 1, - 1, - 1] \<and>
   isspace 10 \<and> list_all (\<lambda>x. isspace (ord x)) '' '' \<and>
   gettok strtod_decimal tutorial_tok \<lparr>LastChar = 10, stdin = '' ''\<rparr>
       \<lparr>identifierStr = ''x'', numVal = 0\<rparr> =
     (- 1, \<lparr>LastChar = EOF, stdin = []\<rparr>, \<lparr>identifierStr = ''x'', numVal = 0\<rparr>)"
proof -
  have h: "isspace 10" "\<forall>x\<in>set '' ''. isspace (ord x)"
    by (simp_all add: isspace_def)
  show ?thesis
    using gettok_end_of_input [of "\<lparr>LastChar = EOF, stdin = []\<rparr>" strtod_decimal tutorial_tok
        "\<lparr>identifierStr = ''x'', numVal = 0\<rparr>" 4 10 "'' ''"] h
    by (simp add: numeral_eq_Suc)
qed

text \<open>
  C7. \<open>gettok\<close> terminates on every input: every argument lies in the domain on which its
  recursion is well-founded, and so does every argument of its four loops. The only recursive
  call is the re-scan behind a comment that ended in a line break; the input still unread at
  that call is strictly shorter than the input unread on entry. So the recursion is never
  deeper than the length of standard input plus one: with that many activations allowed,
  \<open>gettok_fuel\<close> returns what \<open>gettok\<close> returns.
\<close>

theorem gettok_terminates:
  fixes strtod :: "string \<Rightarrow> 'd" and L :: "'d Lexer"
  shows "gettok_dom (strtod, tok, w, L) \<and>
    ws_loop_dom (c, inp) \<and> ident_loop_dom (buf, inp) \<and> num_loop_dom (NumStr, c, inp) \<and>
    comment_loop_dom inp \<and>
    (ws_loop (LastChar w) (stdin w) = (c0, in0) \<and> comment_loop in0 = (c1, in1) \<and> c1 \<noteq> EOF \<longrightarrow>
       length in1 < length (stdin w)) \<and>
    gettok_fuel (Suc (length (stdin w))) strtod tok w L = Some (gettok strtod tok w L)"
  using gettok_dom_all [of strtod tok w L] ws_loop_dom_all [of c inp]
    ident_loop_dom_all [of buf inp] num_loop_dom_all [of NumStr c inp]
    comment_loop_dom_all [of inp] rescan_shorter [of w c0 in0 c1 in1]
    gettok_fuel_enough [of w "Suc (length (stdin w))" strtod tok L]
  by (intro conjI impI) simp_all

theorem gettok_terminates_witness:
  "ws_loop (LastChar (world_init (''# c'' @ CHR 0x0A # ''2'')))
      (stdin (world_init (''# c'' @ CHR 0x0A # ''2''))) = (35, '' c'' @ CHR 0x0A # ''2'') \<and>
   comment_loop ('' c'' @ CHR 0x0A # ''2'') = (10, ''2'') \<and> 10 \<noteq> EOF \<and>
   length ''2'' < length (stdin (world_init (''# c'' @ CHR 0x0A # ''2''))) \<and>
   gettok_dom (strtod_decimal, tutorial_tok, world_init (''# c'' @ CHR 0x0A # ''2''),
     \<lparr>identifierStr = [], numVal = 0\<rparr>) \<and>
   gettok_fuel (Suc (length (stdin (world_init (''# c'' @ CHR 0x0A # ''2'')))))
     strtod_decimal tutorial_tok (world_init (''# c'' @ CHR 0x0A # ''2''))
     \<lparr>identifierStr = [], numVal = 0\<rparr> =
     Some (- 5, \<lparr>LastChar = EOF, stdin = []\<rparr>, \<lparr>identifierStr = [], numVal = 2\<rparr>)"
proof -
  have h1: "ws_loop (LastChar (world_init (''# c'' @ CHR 0x0A # ''2'')))
      (stdin (world_init (''# c'' @ CHR 0x0A # ''2''))) = (35, '' c'' @ CHR 0x0A # ''2'')"
    by (simp add: world_init_def ws_loop_Cons ws_loop_stop isspace_def)
  have h2: "comment_loop ('' c'' @ CHR 0x0A # ''2'') = (10, ''2'')"
    by (simp add: comment_loop_Cons)
  have h3: "10 \<noteq> EOF"
    by (simp add: EOF_def)
  note t = gettok_terminates [of strtod_decimal tutorial_tok
      "world_init (''# c'' @ CHR 0x0A # ''2'')" "\<lparr>identifierStr = [], numVal = 0\<rparr>"
      35 "'' c'' @ CHR 0x0A # ''2''" "[]" "[]" 35 "'' c'' @ CHR 0x0A # ''2''" 10 "''2''"]
  have d: "gettok_dom (strtod_decimal, tutorial_tok,
      world_init (''# c'' @ CHR 0x0A # ''2''), \<lparr>identifierStr = [], numVal = 0\<rparr>)"
    using t [THEN conjunct1] .
  have l: "length ''2'' < length (stdin (world_init (''# c'' @ CHR 0x0A # ''2'')))"
    using t [THEN conjunct2, THEN conjunct2, THEN conjunct2, THEN conjunct2, THEN conjunct2,
        THEN conjunct1, THEN mp, OF conjI [OF h1 conjI [OF h2 h3]]] .
  have g: "gettok strtod_decimal tutorial_tok (world_init (''# c'' @ CHR 0x0A # ''2''))
      \<lparr>identifierStr = [], numVal = 0\<rparr> =
      (- 5, \<lparr>LastChar = EOF, stdin = []\<rparr>, \<lparr>identifierStr = [], numVal = 2\<rparr>)"
    by code_simp
  have f: "gettok_fuel (Suc (length (stdin (world_init (''# c'' @ CHR 0x0A # ''2'')))))
      strtod_decimal tutorial_tok (world_init (''# c'' @ CHR 0x0A # ''2''))
      \<lparr>identifierStr = [], numVal = 0\<rparr> =
      Some (- 5, \<lparr>LastChar = EOF, stdin = []\<rparr>, \<lparr>identifierStr = [], numVal = 2\<rparr>)"
    using t [THEN conjunct2, THEN conjunct2, THEN conjunct2, THEN conjunct2, THEN conjunct2,
        THEN conjunct2]
    by (simp only: g)
  from h1 h2 h3 l d f show ?thesis by (intro conjI)
qed

text \<open>
  C8, as stated, fails: the next call does not always overwrite the payloads. On the input
  \<open>7 x+\<close> the first call returns the number kind with numeric payload 7; the second returns
  the identifier kind and the numeric payload is still 7; the third returns the character
  \<open>+\<close> (43) and both payloads, \<open>x\<close> and 7, are still in place.
\<close>

theorem gettok_payload_kept:
  "gettok_run strtod_decimal tutorial_tok 3 (world_init ''7 x+'')
     \<lparr>identifierStr = [], numVal = 0\<rparr> =
   [(- 5, \<lparr>identifierStr = [], numVal = 7\<rparr>), (- 4, \<lparr>identifierStr = ''x'', numVal = 7\<rparr>),
    (43, \<lparr>identifierStr = ''x'', numVal = 7\<rparr>)]"
  by code_simp

text \<open>
  C8, amended. A call of \<open>gettok\<close> writes the identifier payload only when it returns the kind
  of a scanned word (a keyword or the identifier kind), and the numeric payload only when it
  returns the number kind; the other payload is left as it was, and a call that returns the
  end-of-input kind or a raw character leaves both as they were. So each accessor holds the
  payload of the latest call that returned its kind.
\<close>

theorem gettok_payload_frame:
  assumes "gettok strtod tok w L = (t, w', L')"
  shows "((t = tok tok_eof \<or> unclassified t) \<and> getId L' = getId L \<and> getNum L' = getNum L) \<or>
    (\<exists>ident. t = tok (keyword_or_identifier ident) \<and> getId L' = ident \<and> getNum L' = getNum L) \<or>
    (\<exists>NumStr. t = tok tok_number \<and> getNum L' = strtod NumStr \<and> getId L' = getId L)"
proof -
  from gettok_result_cases [OF assms]
  consider "L' = L" "t = tok tok_eof \<or> unclassified t"
    | ident where "L' = L\<lparr>identifierStr := ident\<rparr>" "t = tok (keyword_or_identifier ident)"
    | NumStr where "L' = L\<lparr>numVal := strtod NumStr\<rparr>" "t = tok tok_number"
    by blast
  then show ?thesis
  proof cases
    case 1
    then show ?thesis by simp
  next
    case 2
    then have "t = tok (keyword_or_identifier ident) \<and> getId L' = ident \<and> getNum L' = getNum L"
      by (simp add: getId_def getNum_def)
    then show ?thesis by blast
  next
    case 3
    then have "t = tok tok_number \<and> getNum L' = strtod NumStr \<and> getId L' = getId L"
      by (simp add: getId_def getNum_def)
    then show ?thesis by blast
  qed
qed

theorem gettok_payload_frame_witness:
  "gettok strtod_decimal tutorial_tok \<lparr>LastChar = 43, stdin = []\<rparr>
      \<lparr>identifierStr = ''x'', numVal = 7\<rparr> =
     (43, \<lparr>LastChar = EOF, stdin = []\<rparr>, \<lparr>identifierStr = ''x'', numVal = 7\<rparr>) \<and>
   (((43 = tutorial_tok tok_eof \<or> unclassified 43) \<and>
     getId \<lparr>identifierStr = ''x'', numVal = 7 :: rat\<rparr> = getId \<lparr>identifierStr = ''x'', numVal = 7 :: rat\<rparr> \<and>
     getNum \<lparr>identifierStr = ''x'', numVal = 7 :: rat\<rparr> = getNum \<lparr>identifierStr = ''x'', numVal = 7 :: rat\<rparr>) \<or>
    (\<exists>ident. 43 = tutorial_tok (keyword_or_identifier ident) \<and>
       getId \<lparr>identifierStr = ''x'', numVal = 7 :: rat\<rparr> = ident \<and>
       getNum \<lparr>identifierStr = ''x'', numVal = 7 :: rat\<rparr> = getNum \<lparr>identifierStr = ''x'', numVal = 7 :: rat\<rparr>) \<or>
    (\<exists>NumStr. 43 = tutorial_tok tok_number \<and>
       getNum \<lparr>identifierStr = ''x'', numVal = 7\<rparr> = strtod_decimal NumStr \<and>
       getId \<lparr>identifierStr = ''x'', numVal = 7 :: rat\<rparr> = getId \<lparr>identifierStr = ''x'', numVal = 7 :: rat\<rparr>))"
proof -
  have g: "gettok strtod_decimal tutorial_tok \<lparr>LastChar = 43, stdin = []\<rparr>
      \<lparr>identifierStr = ''x'', numVal = 7\<rparr> =
     (43, \<lparr>LastChar = EOF, stdin = []\<rparr>, \<lparr>identifierStr = ''x'', numVal = 7\<rparr>)"
    by code_simp
  from g gettok_payload_frame [OF g] show ?thesis by (rule conjI)
qed

text \<open>
  C9. For every prototype, \<open>isUnary\<close> holds exactly when the operator flag is set and there
  is one parameter, \<open>isBinary\<close> exactly when the flag is set and there are two; a prototype
  reports the precedence it was constructed with, and the one constructed for
  \<open>binary^ 10 (a b)\<close> is binary and reports precedence 10.
\<close>

theorem PrototypeAST_operator_queries:
  "(isUnary p \<longleftrightarrow> is_operator p \<and> length (args p) = 1) \<and>
   (isBinary p \<longleftrightarrow> is_operator p \<and> length (args p) = 2) \<and>
   getBinaryPrecedence (PrototypeAST_ctor n a is_op prec) = prec \<and>
   isBinary (PrototypeAST_ctor ''binary^'' [''a'', ''b''] True 10) \<and>
   getBinaryPrecedence (PrototypeAST_ctor ''binary^'' [''a'', ''b''] True 10) = 10"
  by (simp add: isUnary_def isBinary_def getBinaryPrecedence_def PrototypeAST_ctor_def)

text \<open>
  C10. The pending character belongs to the process, not to the object. Constructing a
  \<open>Lexer\<close> leaves it as it is; what a call of \<open>gettok\<close> returns and how it leaves the pending
  character and standard input does not depend on the object it is called on. On the input
  \<open>a+b\<close>, a call on a first object returns the identifier \<open>a\<close> and leaves \<open>+\<close> pending; a
  second object constructed afterwards finds \<open>+\<close> pending, and its first call returns \<open>+\<close>,
  where a scan of its own would have started from a blank and returned the identifier \<open>b\<close>.
\<close>

theorem LastChar_shared:
  "fst (Lexer_ctor d0 w) = w \<and>
   fst (gettok strtod tok w A) = fst (gettok strtod tok w B) \<and>
   fst (snd (gettok strtod tok w A)) = fst (snd (gettok strtod tok w B)) \<and>
   (case Lexer_ctor d0 (world_init ''a+b'') of (w0, A0) \<Rightarrow>
      case gettok strtod tok w0 A0 of (t1, w1, A1) \<Rightarrow>
        case Lexer_ctor d1 w1 of (w2, B0) \<Rightarrow>
          case gettok strtod tok w2 B0 of (t2, w3, B1) \<Rightarrow>
            t1 = tok tok_identifier \<and> getId A1 = ''a'' \<and> LastChar w2 = ord CHR ''+'' \<and>
            t2 = ord CHR ''+'' \<and> LastChar w3 = ord CHR ''b'' \<and> getId B1 = [])"
proof -
  let ?A0 = "\<lparr>identifierStr = [], numVal = d0\<rparr>" and ?B0 = "\<lparr>identifierStr = [], numVal = d1\<rparr>"
  have 1: "gettok strtod tok \<lparr>LastChar = ord CHR '' '', stdin = ''a+b''\<rparr> ?A0 =
      (tok tok_identifier, \<lparr>LastChar = ord CHR ''+'', stdin = ''b''\<rparr>, ?A0\<lparr>identifierStr := ''a''\<rparr>)"
    using gettok_word [of "'' ''" "CHR ''a''" "[]" "''+b''" "CHR '' ''" "''a+b''" strtod tok ?A0]
    by (simp add: isspace_def isalpha_def isalnum_def isdigit_def keyword_or_identifier_def)
  have 2: "gettok strtod tok \<lparr>LastChar = ord CHR ''+'', stdin = ''b''\<rparr> ?B0 =
      (ord CHR ''+'', \<lparr>LastChar = ord CHR ''b'', stdin = []\<rparr>, ?B0)"
    using gettok_other [of "[]" "CHR ''+''" "CHR ''+''" "''b''" "''b''" strtod tok ?B0]
    by (simp add: isspace_def isalpha_def isdigit_def)
  have 3: "case Lexer_ctor d0 (world_init ''a+b'') of (w0, A0) \<Rightarrow>
      case gettok strtod tok w0 A0 of (t1, w1, A1) \<Rightarrow>
        case Lexer_ctor d1 w1 of (w2, B0) \<Rightarrow>
          case gettok strtod tok w2 B0 of (t2, w3, B1) \<Rightarrow>
            t1 = tok tok_identifier \<and> getId A1 = ''a'' \<and> LastChar w2 = ord CHR ''+'' \<and>
            t2 = ord CHR ''+'' \<and> LastChar w3 = ord CHR ''b'' \<and> getId B1 = []"
    using 1 2 by (simp add: Lexer_ctor_def world_init_def getId_def)
  have 4: "fst (Lexer_ctor d0 w) = w"
    by (simp add: Lexer_ctor_def)
  from 4 gettok_object_free [of strtod tok w A B] 3 show ?thesis
    by (intro conjI) simp_all
qed

end
